theory Spec2Isabelle
  imports Complex_Main "HOL-Library.Multiset"
begin

section \<open>Numbers\<close>

text \<open>
  A JavaScript \<open>number\<close> as far as the collector can observe it: a finite value, the two
  infinities, or NaN. A finite value is kept exactly (as a rational) where JavaScript rounds
  to the nearest double. The same type stands for the \<open>DECIMAL(18, 8)\<close> columns of the
  price tables; the coercion the storage engine applies on the way in (rounding to eight
  places, range check) is not part of the repository and is not modelled.
\<close>

datatype number = Finite rat | PosInfinity | NegInfinity | NaN

text \<open>
  The order is the one the SQL comparisons \<open><\<close> and \<open>>\<close> of the trigger use on numeric
  values: the finite values in their usual order between the infinities, NaN above everything
  and equal to itself.
\<close>

instantiation number :: linorder
begin

fun less_eq_number :: "number \<Rightarrow> number \<Rightarrow> bool" where
  "less_eq_number _ NaN = True"
| "less_eq_number NaN _ = False"
| "less_eq_number _ PosInfinity = True"
| "less_eq_number PosInfinity _ = False"
| "less_eq_number NegInfinity _ = True"
| "less_eq_number (Finite a) NegInfinity = False"
| "less_eq_number (Finite a) (Finite b) = (a \<le> b)"

definition less_number :: "number \<Rightarrow> number \<Rightarrow> bool" where
  "less_number x y = (x \<le> y \<and> \<not> y \<le> x)"

instance
proof
  fix x y z :: number
  show "(x < y) = (x \<le> y \<and> \<not> y \<le> x)" by (simp add: less_number_def)
  show "x \<le> x" by (cases x) simp_all
  show "x \<le> y \<Longrightarrow> y \<le> z \<Longrightarrow> x \<le> z" by (cases x; cases y; cases z) simp_all
  show "x \<le> y \<Longrightarrow> y \<le> x \<Longrightarrow> x = y" by (cases x; cases y) simp_all
  show "x \<le> y \<or> y \<le> x" by (cases x; cases y) auto
qed

end

section \<open>The catalog and the price store (migrations/001, db.ts)\<close>

text \<open>Times are milliseconds since the epoch, as \<open>Date.now()\<close> counts them.\<close>

definition hours_48 :: nat where
  "hours_48 = 48 * 60 * 60 * 1000"

definition minutes_10 :: nat where
  "minutes_10 = 10 * 60 * 1000"

text \<open>
  The nested JSON of the \<open>games.markets\<close> column. A field the code tests for truthiness
  before using it (\<open>market.outcomes\<close>, \<open>outcome.tokenID\<close>, \<open>row.markets\<close>) is optional.
\<close>

record market_outcome =
  title :: string
  tokenID :: "string option"

record market =
  sportsMarketType :: string
  conditionId :: string
  marketSlug :: string
  outcomes :: "market_outcome list option"

text \<open>
  A row of the external \<open>games\<close> table, with the columns the queries and their comments
  name. \<open>end_date\<close> is nullable.
\<close>

record game_row =
  row_id :: string
  row_title :: string
  row_markets :: "market list option"
  closed :: bool
  start_date :: nat
  end_date :: "nat option"

text \<open>
  A row of \<open>market_prices\<close> (the surrogate \<open>id\<close> left out). The table is keyed by its
  \<open>UNIQUE(condition_id, token_id, timestamp)\<close> constraint.
\<close>

record market_prices_row =
  condition_id :: string
  token_id :: string
  outcome_col :: "string option"
  price_col :: number
  timestamp_col :: nat
  source_col :: string
  created_at :: nat

text \<open>
  A row of \<open>market_price_extremes\<close> without its key columns: the table is keyed by its
  \<open>UNIQUE(condition_id, token_id)\<close> constraint. Every value column is nullable.
\<close>

record extremes_row =
  extremes_outcome :: "string option"
  lowest_price :: "number option"
  lowest_price_timestamp :: "nat option"
  highest_price :: "number option"
  highest_price_timestamp :: "nat option"
  current_price :: "number option"
  current_price_timestamp :: "nat option"
  first_recorded :: "nat option"
  last_updated :: "nat option"

type_synonym price_key = "string \<times> string \<times> nat"

type_synonym outcome_key = "string \<times> string"

record database =
  games :: "game_row list"
  market_prices :: "price_key \<rightharpoonup> market_prices_row"
  market_price_extremes :: "outcome_key \<rightharpoonup> extremes_row"

text \<open>
  An SQL comparison against a nullable column is unknown when the column is NULL, and a
  \<open>CASE WHEN\<close> takes its \<open>ELSE\<close> branch then.
\<close>

fun sql_less :: "number \<Rightarrow> number option \<Rightarrow> bool" where
  "sql_less a None = False"
| "sql_less a (Some b) = (a < b)"

fun sql_greater :: "number \<Rightarrow> number option \<Rightarrow> bool" where
  "sql_greater a None = False"
| "sql_greater a (Some b) = (a > b)"

text \<open>
  The trigger function \<open>update_price_extremes\<close>: an insert into the extremes table, which
  on a conflict on (condition_id, token_id) updates the existing row instead. \<open>now\<close> is
  \<open>NOW()\<close>.
\<close>

definition update_price_extremes ::
  "nat \<Rightarrow> market_prices_row \<Rightarrow> (outcome_key \<rightharpoonup> extremes_row) \<Rightarrow> (outcome_key \<rightharpoonup> extremes_row)"
where
  "update_price_extremes now NEW ex =
     (case ex (condition_id NEW, token_id NEW) of
        None \<Rightarrow>
          ex((condition_id NEW, token_id NEW) \<mapsto>
            \<lparr> extremes_outcome = outcome_col NEW,
              lowest_price = Some (price_col NEW),
              lowest_price_timestamp = Some (timestamp_col NEW),
              highest_price = Some (price_col NEW),
              highest_price_timestamp = Some (timestamp_col NEW),
              current_price = Some (price_col NEW),
              current_price_timestamp = Some (timestamp_col NEW),
              first_recorded = Some (timestamp_col NEW),
              last_updated = Some now \<rparr>)
      | Some old \<Rightarrow>
          ex((condition_id NEW, token_id NEW) \<mapsto>
            old\<lparr> lowest_price :=
                   (if sql_less (price_col NEW) (lowest_price old) then Some (price_col NEW)
                    else lowest_price old),
                 lowest_price_timestamp :=
                   (if sql_less (price_col NEW) (lowest_price old) then Some (timestamp_col NEW)
                    else lowest_price_timestamp old),
                 highest_price :=
                   (if sql_greater (price_col NEW) (highest_price old) then Some (price_col NEW)
                    else highest_price old),
                 highest_price_timestamp :=
                   (if sql_greater (price_col NEW) (highest_price old)
                    then Some (timestamp_col NEW)
                    else highest_price_timestamp old),
                 current_price := Some (price_col NEW),
                 current_price_timestamp := Some (timestamp_col NEW),
                 last_updated := Some now \<rparr>))"

text \<open>
  One tuple of \<open>INSERT INTO market_prices (condition_id, token_id, outcome, price, timestamp,
  source) VALUES (...) ON CONFLICT (condition_id, token_id, timestamp) DO NOTHING\<close>: a tuple
  whose key is already in the table is skipped; an inserted row gets \<open>created_at\<close> from its
  default \<open>NOW()\<close> and fires the \<open>AFTER INSERT ... FOR EACH ROW\<close> trigger.
\<close>

type_synonym insert_values = "string \<times> string \<times> string option \<times> number \<times> nat \<times> string"

fun key_of :: "insert_values \<Rightarrow> price_key" where
  "key_of (cid, tid, oc, p, ts, src) = (cid, tid, ts)"

fun inserted_row :: "nat \<Rightarrow> insert_values \<Rightarrow> market_prices_row" where
  "inserted_row now (cid, tid, oc, p, ts, src) =
     \<lparr> condition_id = cid, token_id = tid, outcome_col = oc, price_col = p,
       timestamp_col = ts, source_col = src, created_at = now \<rparr>"

definition insert_price_row :: "nat \<Rightarrow> insert_values \<Rightarrow> database \<Rightarrow> database" where
  "insert_price_row now v d =
     (case market_prices d (key_of v) of
        Some _ \<Rightarrow> d
      | None \<Rightarrow>
          d\<lparr> market_prices := (market_prices d)(key_of v \<mapsto> inserted_row now v),
             market_price_extremes :=
               update_price_extremes now (inserted_row now v) (market_price_extremes d) \<rparr>)"

text \<open>The multi-row statement handles its tuples in the order they are written.\<close>

fun insert_price_rows :: "nat \<Rightarrow> insert_values list \<Rightarrow> database \<Rightarrow> database" where
  "insert_price_rows now [] d = d"
| "insert_price_rows now (v # vs) d = insert_price_rows now vs (insert_price_row now v d)"

section \<open>The process and its surroundings\<close>

datatype error = DbError

text \<open>
  The body of a quote response as \<open>fetchTokenPrice\<close> reads it: the two optional string
  fields \<open>price\<close> and \<open>mid\<close>, each absent, null or a string.
\<close>

datatype js_field = Undefined | Null | Str string

record json_body =
  price :: js_field
  mid :: js_field

text \<open>
  What one \<open>fetch\<close> call does: it rejects, or it resolves to a response with a status and a
  body. The body is \<open>None\<close> when \<open>response.json()\<close> rejects or yields null, so that
  reading \<open>data.price\<close> throws.
\<close>

datatype fetch_outcome = NetworkFailure | Response nat "json_body option"

text \<open>
  The console lines of collect-prices.ts and db.ts, each with the values interpolated into
  it. The separator lines and the duration of a query are left out.
\<close>

datatype log_line =
    LogRateLimited
  | LogFetchFailed string nat
  | LogNoPriceData string
  | LogFetchError string
  | LogStarting nat
  | LogFound nat
  | LogNoActiveGames
  | LogGame string string
  | LogNoOutcomes string
  | LogNoTokenId string
  | LogProgress nat
  | LogSuccess string number
  | LogFailure string
  | LogInserting nat
  | LogStored nat
  | LogNothingToInsert
  | LogSummary nat nat nat nat nat nat
  | LogCollectionFailed
  | LogQueryExecuted
  | LogQueryError
  | LogBatchInserted nat

text \<open>
  The state a run works on. \<open>net\<close> scripts the quote API: the outcome of each request still
  to come, with the time it takes. \<open>requests\<close> records each request sent, with the time it
  was sent and its token id, oldest first. \<open>db_faults\<close> scripts the database connection: the
  head says whether the next query is rejected; an empty script rejects nothing. A query
  takes no time.
\<close>

record world =
  clock :: nat
  net :: "(nat \<times> fetch_outcome) list"
  requests :: "(nat \<times> string) list"
  console :: "log_line list"
  db :: database
  db_faults :: "bool list"

definition console_log :: "log_line \<Rightarrow> world \<Rightarrow> world" where
  "console_log l w = w\<lparr> console := console w @ [l] \<rparr>"

text \<open>\<open>sleep\<close> takes exactly the time asked for, the least a timer waits.\<close>

definition sleep :: "nat \<Rightarrow> world \<Rightarrow> world" where
  "sleep ms w = w\<lparr> clock := clock w + ms \<rparr>"

subsection \<open>db.ts\<close>

text \<open>
  \<open>query\<close> runs a statement, given as a function of \<open>NOW()\<close> and the database, and logs;
  a rejected query is logged and rethrown.
\<close>

definition query :: "(nat \<Rightarrow> database \<Rightarrow> 'a \<times> database) \<Rightarrow> world \<Rightarrow> (error + 'a) \<times> world" where
  "query stmt w =
     (let fault = (case db_faults w of [] \<Rightarrow> False | f # _ \<Rightarrow> f);
          w1 = w\<lparr> db_faults := tl (db_faults w) \<rparr>
      in if fault then (Inl DbError, console_log LogQueryError w1)
         else (case stmt (clock w1) (db w1) of
                 (res, d) \<Rightarrow> (Inr res, console_log LogQueryExecuted (w1\<lparr> db := d \<rparr>))))"

text \<open>The objects \<open>collectPrices\<close> pushes to \<open>priceRecords\<close>; \<open>source\<close> is optional.\<close>

record price_record =
  pr_conditionId :: string
  pr_tokenId :: string
  pr_outcome :: string
  pr_price :: number
  pr_timestamp :: nat
  pr_source :: "string option"

text \<open>\<open>x || "rest"\<close>: an absent or empty source becomes \<open>"rest"\<close>.\<close>

fun or_rest :: "string option \<Rightarrow> string" where
  "or_rest None = ''rest''"
| "or_rest (Some s) = (if s = [] then ''rest'' else s)"

definition values_of :: "price_record \<Rightarrow> insert_values" where
  "values_of p =
     (pr_conditionId p, pr_tokenId p, Some (pr_outcome p), pr_price p, pr_timestamp p,
      or_rest (pr_source p))"

definition insertPrice :: "price_record \<Rightarrow> world \<Rightarrow> (error + unit) \<times> world" where
  "insertPrice p w = query (\<lambda>now d. ((), insert_price_row now (values_of p) d)) w"

definition batchInsertPrices :: "price_record list \<Rightarrow> world \<Rightarrow> (error + unit) \<times> world" where
  "batchInsertPrices prices w =
     (if length prices = 0 then (Inr (), w)
      else (case query (\<lambda>now d. ((), insert_price_rows now (map values_of prices) d)) w of
              (Inl e, w1) \<Rightarrow> (Inl e, w1)
            | (Inr u, w1) \<Rightarrow> (Inr (), console_log (LogBatchInserted (length prices)) w1)))"

text \<open>
  The query of \<open>getActiveGames\<close>. \<open>ORDER BY start_date ASC\<close> leaves the order of rows with
  equal start dates open; the model keeps them in table order.
\<close>

definition is_active_game :: "nat \<Rightarrow> game_row \<Rightarrow> bool" where
  "is_active_game now g =
     (closed g = False \<and>
      (start_date g \<le> now \<or> (start_date g > now \<and> start_date g < now + hours_48)))"

definition select_active_games :: "nat \<Rightarrow> database \<Rightarrow> game_row list" where
  "select_active_games now d = sort_key start_date (filter (is_active_game now) (games d))"

record game =
  id :: string
  game_title :: string
  markets :: "market list"

definition game_of_row :: "game_row \<Rightarrow> game" where
  "game_of_row row =
     \<lparr> id = row_id row, game_title = row_title row,
       markets = filter (\<lambda>m. sportsMarketType m = ''moneyline'')
                   (case row_markets row of None \<Rightarrow> [] | Some ms \<Rightarrow> ms) \<rparr>"

definition getActiveGames :: "world \<Rightarrow> (error + game list) \<times> world" where
  "getActiveGames w =
     (case query (\<lambda>now d. (select_active_games now d, d)) w of
        (Inl e, w1) \<Rightarrow> (Inl e, w1)
      | (Inr rows, w1) \<Rightarrow> (Inr (map game_of_row rows), w1))"

text \<open>The one row the query of \<open>shouldUseHighFrequency\<close> returns.\<close>

record frequency_row =
  active_count :: nat
  upcoming_count :: nat
  next_start_date :: "nat option"

fun sql_min :: "nat list \<Rightarrow> nat option" where
  "sql_min [] = None"
| "sql_min (x # xs) = Some (fold min xs x)"

definition select_frequency_row :: "nat \<Rightarrow> database \<Rightarrow> frequency_row" where
  "select_frequency_row now d =
     (let rows = filter (\<lambda>g. closed g = False \<and> start_date g < now + hours_48) (games d)
      in \<lparr> active_count = length (filter (\<lambda>g. start_date g \<le> now) rows),
           upcoming_count =
             length (filter (\<lambda>g. start_date g > now \<and> start_date g \<le> now + minutes_10) rows),
           next_start_date = sql_min (map start_date (filter (\<lambda>g. start_date g > now) rows)) \<rparr>)"

text \<open>
  The reason texts, by template: \<open>"N active game(s) in progress"\<close>,
  \<open>"N game(s) starting within 10 minutes"\<close>, \<open>"Next game starts at <date>"\<close> and
  \<open>"No upcoming games"\<close>.
\<close>

datatype reason =
    ActiveGamesInProgress nat
  | GamesStartingWithin10Minutes nat
  | NextGameStartsAt nat
  | NoUpcomingGames

record frequency_check =
  highFrequency :: bool
  reason :: reason
  nextGameStart :: "nat option"

definition frequency_of_row :: "frequency_row \<Rightarrow> frequency_check" where
  "frequency_of_row row =
     (if active_count row > 0 then
        \<lparr> highFrequency = True, reason = ActiveGamesInProgress (active_count row),
          nextGameStart = next_start_date row \<rparr>
      else if upcoming_count row > 0 then
        \<lparr> highFrequency = True, reason = GamesStartingWithin10Minutes (upcoming_count row),
          nextGameStart = next_start_date row \<rparr>
      else
        \<lparr> highFrequency = False,
          reason = (case next_start_date row of Some t \<Rightarrow> NextGameStartsAt t
                    | None \<Rightarrow> NoUpcomingGames),
          nextGameStart = next_start_date row \<rparr>)"

definition shouldUseHighFrequency :: "world \<Rightarrow> (error + frequency_check) \<times> world" where
  "shouldUseHighFrequency w =
     (case query (\<lambda>now d. (select_frequency_row now d, d)) w of
        (Inl e, w1) \<Rightarrow> (Inl e, w1)
      | (Inr row, w1) \<Rightarrow> (Inr (frequency_of_row row), w1))"

subsection \<open>collect-prices.ts: the quote client\<close>

text \<open>
  The built-in \<open>parseFloat\<close>: leading white space is skipped, then the longest prefix that
  is a decimal literal (sign, \<open>Infinity\<close> or digits with an optional fraction and exponent)
  is read; without such a prefix the result is NaN. Only the ASCII white space is covered.
\<close>

definition is_white_space :: "char \<Rightarrow> bool" where
  "is_white_space c = (of_char c \<in> {9, 10, 11, 12, 13, 32 :: nat})"

definition is_digit :: "char \<Rightarrow> bool" where
  "is_digit c = (48 \<le> (of_char c :: nat) \<and> (of_char c :: nat) \<le> 57)"

definition digits_value :: "string \<Rightarrow> nat" where
  "digits_value ds = foldl (\<lambda>n c. 10 * n + (of_char c - 48)) 0 ds"

definition exponent_part :: "string \<Rightarrow> int" where
  "exponent_part s =
     (if s \<noteq> [] \<and> (hd s = CHR ''e'' \<or> hd s = CHR ''E'') then
        (let r = tl s in
         if r \<noteq> [] \<and> hd r = CHR ''-'' then - int (digits_value (takeWhile is_digit (tl r)))
         else if r \<noteq> [] \<and> hd r = CHR ''+'' then int (digits_value (takeWhile is_digit (tl r)))
         else int (digits_value (takeWhile is_digit r)))
      else 0)"

definition scale10 :: "rat \<Rightarrow> int \<Rightarrow> rat" where
  "scale10 m e = (if 0 \<le> e then m * 10 ^ nat e else m / 10 ^ nat (- e))"

definition parseFloat :: "string \<Rightarrow> number" where
  "parseFloat input =
     (let s = dropWhile is_white_space input;
          negative = (s \<noteq> [] \<and> hd s = CHR ''-'');
          u = (if s \<noteq> [] \<and> (hd s = CHR ''-'' \<or> hd s = CHR ''+'') then tl s else s)
      in if take 8 u = ''Infinity'' then (if negative then NegInfinity else PosInfinity)
         else
           (let ip = takeWhile is_digit u;
                r1 = dropWhile is_digit u;
                has_point = (r1 \<noteq> [] \<and> hd r1 = CHR ''.'');
                fp = (if has_point then takeWhile is_digit (tl r1) else []);
                r2 = (if has_point then dropWhile is_digit (tl r1) else r1);
                m = scale10 (of_nat (digits_value (ip @ fp)))
                      (exponent_part r2 - int (length fp))
            in if ip = [] \<and> fp = [] then NaN
               else Finite (if negative then - m else m)))"

definition RATE_LIMIT_PER_MINUTE :: nat where
  "RATE_LIMIT_PER_MINUTE = 90"

definition DELAY_BETWEEN_REQUESTS :: nat where
  "DELAY_BETWEEN_REQUESTS = nat \<lceil>(60000 :: rat) / of_nat RATE_LIMIT_PER_MINUTE\<rceil>"

text \<open>
  \<open>fetch\<close> sends the request \<open>GET https://clob.polymarket.com/price?token_id=...&side=SELL\<close>
  at the current time, recorded by its token id, and takes the next outcome of the script,
  which arrives after its latency. On an exhausted script the call does not return.
\<close>

definition fetch :: "string \<Rightarrow> world \<Rightarrow> (fetch_outcome \<times> world) option" where
  "fetch tokenId w =
     (case net w of
        [] \<Rightarrow> None
      | (latency, out) # rest \<Rightarrow>
          Some (out, w\<lparr> net := rest, requests := requests w @ [(clock w, tokenId)],
                        clock := clock w + latency \<rparr>))"

text \<open>\<open>response.ok\<close>: a status from 200 to 299.\<close>

definition ok :: "nat \<Rightarrow> bool" where
  "ok status = (200 \<le> status \<and> status \<le> 299)"

text \<open>\<open>a || b\<close> on the fields: \<open>a\<close> unless it is absent, null or the empty string.\<close>

fun js_or :: "js_field \<Rightarrow> js_field \<Rightarrow> js_field" where
  "js_or (Str s) b = (if s = [] then b else Str s)"
| "js_or Undefined b = b"
| "js_or Null b = b"

text \<open>
  \<open>fetchTokenPrice\<close>; the inner \<open>None\<close> is JavaScript's \<open>null\<close>, the outer one a call that
  has not returned when the script ends. Everything the body throws is caught and turned
  into \<open>null\<close>.
\<close>

function fetchTokenPrice :: "string \<Rightarrow> world \<Rightarrow> (number option \<times> world) option" where
  "fetchTokenPrice tokenId w =
     (case fetch tokenId w of
        None \<Rightarrow> None
      | Some (NetworkFailure, w1) \<Rightarrow> Some (None, console_log (LogFetchError tokenId) w1)
      | Some (Response status body, w1) \<Rightarrow>
          if \<not> ok status then
            (if status = 429 then
               fetchTokenPrice tokenId (sleep 30000 (console_log LogRateLimited w1))
             else Some (None, console_log (LogFetchFailed tokenId status) w1))
          else
            (case body of
               None \<Rightarrow> Some (None, console_log (LogFetchError tokenId) w1)
             | Some data \<Rightarrow>
                 (case js_or (price data) (mid data) of
                    Undefined \<Rightarrow> Some (None, console_log (LogNoPriceData tokenId) w1)
                  | Null \<Rightarrow> Some (None, console_log (LogNoPriceData tokenId) w1)
                  | Str p \<Rightarrow> Some (Some (parseFloat p), w1))))"
  by pat_completeness auto
termination
proof (relation "measure (\<lambda>(tokenId, w). length (net w))")
  show "wf (measure (\<lambda>(tokenId, w). length (net w)))"
    by simp
next
  fix tokenId :: string and w w1 :: world and x2 x status body
  assume "fetch tokenId w = Some x2" and "(x, w1) = x2"
  then have "length (net w1) < length (net w)"
    by (auto simp: fetch_def split: list.splits)
  then show "((tokenId, sleep 30000 (console_log LogRateLimited w1)), (tokenId, w)) \<in>
             measure (\<lambda>(tokenId, w). length (net w))"
    by (simp add: sleep_def console_log_def)
qed

declare fetchTokenPrice.simps [simp del]

subsection \<open>collect-prices.ts: the collection run\<close>

text \<open>The local variables of \<open>collectPrices\<close> that its loops update.\<close>

record loop_state =
  priceRecords :: "price_record list"
  requestCount :: nat
  successCount :: nat
  failureCount :: nat

text \<open>\<open>!outcome.tokenID\<close>: the token id is absent or empty.\<close>

fun no_token :: "string option \<Rightarrow> bool" where
  "no_token None = True"
| "no_token (Some t) = (t = [])"

text \<open>The body of the innermost loop, for one outcome of a market.\<close>

definition collect_outcome ::
  "market \<Rightarrow> nat \<Rightarrow> market_outcome \<Rightarrow> loop_state \<times> world \<Rightarrow> (loop_state \<times> world) option"
where
  "collect_outcome m ts oc sw =
     (case sw of (st, w) \<Rightarrow>
        if no_token (tokenID oc) then Some (st, console_log (LogNoTokenId (title oc)) w)
        else
          (let w1 = (if requestCount st > 0 \<and> requestCount st mod 10 = 0
                     then sleep DELAY_BETWEEN_REQUESTS (console_log (LogProgress (requestCount st)) w)
                     else w)
           in case fetchTokenPrice (the (tokenID oc)) w1 of
                None \<Rightarrow> None
              | Some (res, w2) \<Rightarrow>
                  (let st1 = st\<lparr> requestCount := requestCount st + 1 \<rparr>
                   in case res of
                        Some p \<Rightarrow>
                          Some (st1\<lparr> priceRecords := priceRecords st1 @
                                       [\<lparr> pr_conditionId = conditionId m,
                                          pr_tokenId = the (tokenID oc),
                                          pr_outcome = title oc,
                                          pr_price = p,
                                          pr_timestamp = ts,
                                          pr_source = Some ''rest'' \<rparr>],
                                     successCount := successCount st1 + 1 \<rparr>,
                                sleep DELAY_BETWEEN_REQUESTS (console_log (LogSuccess (title oc) p) w2))
                      | None \<Rightarrow>
                          Some (st1\<lparr> failureCount := failureCount st1 + 1 \<rparr>,
                                sleep DELAY_BETWEEN_REQUESTS (console_log (LogFailure (title oc)) w2)))))"

fun collect_outcomes ::
  "market \<Rightarrow> nat \<Rightarrow> market_outcome list \<Rightarrow> loop_state \<times> world \<Rightarrow> (loop_state \<times> world) option"
where
  "collect_outcomes m ts [] sw = Some sw"
| "collect_outcomes m ts (oc # ocs) sw =
     (case collect_outcome m ts oc sw of
        None \<Rightarrow> None
      | Some sw1 \<Rightarrow> collect_outcomes m ts ocs sw1)"

text \<open>\<open>!market.outcomes || market.outcomes.length === 0\<close>\<close>

fun no_outcomes :: "market_outcome list option \<Rightarrow> bool" where
  "no_outcomes None = True"
| "no_outcomes (Some ocs) = (length ocs = 0)"

fun collect_markets ::
  "nat \<Rightarrow> market list \<Rightarrow> loop_state \<times> world \<Rightarrow> (loop_state \<times> world) option"
where
  "collect_markets ts [] sw = Some sw"
| "collect_markets ts (m # ms) sw =
     (if no_outcomes (outcomes m)
      then collect_markets ts ms (fst sw, console_log (LogNoOutcomes (marketSlug m)) (snd sw))
      else (case collect_outcomes m ts (the (outcomes m)) sw of
              None \<Rightarrow> None
            | Some sw1 \<Rightarrow> collect_markets ts ms sw1))"

fun collect_games ::
  "nat \<Rightarrow> game list \<Rightarrow> loop_state \<times> world \<Rightarrow> (loop_state \<times> world) option"
where
  "collect_games ts [] sw = Some sw"
| "collect_games ts (g # gs) sw =
     (case collect_markets ts (markets g)
             (fst sw, console_log (LogGame (game_title g) (id g)) (snd sw)) of
        None \<Rightarrow> None
      | Some sw1 \<Rightarrow> collect_games ts gs sw1)"

text \<open>The batch insert at the end of a run, skipped when nothing was collected.\<close>

definition store_collected :: "price_record list \<Rightarrow> world \<Rightarrow> (error + unit) \<times> world" where
  "store_collected recs w =
     (if length recs > 0 then
        (case batchInsertPrices recs (console_log (LogInserting (length recs)) w) of
           (Inl e, w1) \<Rightarrow> (Inl e, w1)
         | (Inr u, w1) \<Rightarrow> (Inr (), console_log (LogStored (length recs)) w1))
      else (Inr (), console_log LogNothingToInsert w))"

text \<open>
  \<open>collectPrices\<close>. \<open>Inl\<close> is the error it rethrows; the outer \<open>None\<close> is a run that has not
  returned when the script of the quote API ends.
\<close>

definition collectPrices :: "world \<Rightarrow> ((error + unit) \<times> world) option" where
  "collectPrices w =
     (let startTime = clock w in
      case getActiveGames (console_log (LogStarting startTime) w) of
        (Inl e, w1) \<Rightarrow> Some (Inl e, console_log LogCollectionFailed w1)
      | (Inr gs, w1) \<Rightarrow>
          (let w2 = console_log (LogFound (length gs)) w1 in
           if length gs = 0 then Some (Inr (), console_log LogNoActiveGames w2)
           else
             (let timestamp = clock w2 in
              case collect_games timestamp gs
                     (\<lparr> priceRecords = [], requestCount = 0, successCount = 0,
                        failureCount = 0 \<rparr>, w2) of
                None \<Rightarrow> None
              | Some (st, w3) \<Rightarrow>
                  (case store_collected (priceRecords st) w3 of
                     (Inl e, w4) \<Rightarrow> Some (Inl e, console_log LogCollectionFailed w4)
                   | (Inr u, w4) \<Rightarrow>
                       Some (Inr (),
                             console_log (LogSummary (clock w4 - startTime) (length gs) (requestCount st)
                                    (successCount st) (failureCount st)
                                    (length (priceRecords st))) w4)))))"

section \<open>Auxiliary notions and example data\<close>


definition empty_db :: database where
  "empty_db = \<lparr> games = [], market_prices = Map.empty, market_price_extremes = Map.empty \<rparr>"

definition example_batch :: "price_record list" where
  "example_batch =
     [\<lparr> pr_conditionId = ''0xabc'', pr_tokenId = ''111'', pr_outcome = ''Lakers'',
        pr_price = Finite (3 / 10), pr_timestamp = 1000, pr_source = Some ''rest'' \<rparr>,
      \<lparr> pr_conditionId = ''0xabc'', pr_tokenId = ''222'', pr_outcome = ''Celtics'',
        pr_price = Finite (7 / 10), pr_timestamp = 1000, pr_source = None \<rparr>]"

definition idle_world :: world where
  "idle_world =
     \<lparr> clock = 1000, net = [], requests = [], console = [], db = empty_db, db_faults = [] \<rparr>"

text \<open>The columns of a tuple of the insert statement.\<close>

fun outcome_key_of :: "insert_values \<Rightarrow> outcome_key" where
  "outcome_key_of (cid, tid, oc, p, ts, src) = (cid, tid)"

fun price_of :: "insert_values \<Rightarrow> number" where
  "price_of (cid, tid, oc, p, ts, src) = p"

fun timestamp_of :: "insert_values \<Rightarrow> nat" where
  "timestamp_of (cid, tid, oc, p, ts, src) = ts"

text \<open>
  Replaying a sequence of observations through the store: each is written by its own insert
  statement, at its own time.
\<close>

fun replay :: "(nat \<times> insert_values) list \<Rightarrow> database \<Rightarrow> database" where
  "replay [] d = d"
| "replay ((now, v) # obs) d = replay obs (insert_price_row now v d)"



text \<open>The three prices of an extremes row are present and in order.\<close>

definition ordered_extremes :: "extremes_row \<Rightarrow> bool" where
  "ordered_extremes r =
     (case (lowest_price r, current_price r, highest_price r) of
        (Some l, Some c, Some h) \<Rightarrow> l \<le> c \<and> c \<le> h
      | _ \<Rightarrow> False)"

text \<open>
  The two invariants of the store: a key has an extremes row exactly when it has an
  observation, and every extremes row is ordered.
\<close>

definition store_invariant :: "database \<Rightarrow> bool" where
  "store_invariant d =
     ((\<forall>cid tid. (market_price_extremes d (cid, tid) \<noteq> None) =
                 (\<exists>ts. market_prices d (cid, tid, ts) \<noteq> None)) \<and>
      (\<forall>k r. market_price_extremes d k = Some r \<longrightarrow> ordered_extremes r))"

definition example_obs :: "(nat \<times> insert_values) list" where
  "example_obs =
     [(1500, (''0xabc'', ''111'', Some ''Lakers'', Finite (1 / 2), 1000, ''rest'')),
      (2500, (''0xabc'', ''111'', Some ''Lakers'', Finite (3 / 10), 2000, ''rest'')),
      (3500, (''0xabc'', ''111'', Some ''Lakers'', Finite (7 / 10), 3000, ''rest''))]"

text \<open>
  What the specification says of the enumeration: a market is trackable when it is not
  closed and is either underway (start \<open>\<le>\<close> now, and end \<open>>\<close> now or end absent) or starts
  within the next 48 hours.
\<close>

definition spec_trackable :: "nat \<Rightarrow> game_row \<Rightarrow> bool" where
  "spec_trackable now g =
     (closed g = False \<and>
      ((start_date g \<le> now \<and> (case end_date g of None \<Rightarrow> True | Some e \<Rightarrow> e > now)) \<or>
       (start_date g > now \<and> start_date g < now + hours_48)))"

text \<open>
  A catalog at time 1000000000: a game that ended an hour ago but is not closed, a live
  game, a game starting in 40 hours, one starting in 72 hours, and a closed one.
\<close>

definition lakers_market :: market where
  "lakers_market =
     \<lparr> sportsMarketType = ''moneyline'', conditionId = ''0xabc'', marketSlug = ''lal-bos'',
       outcomes = Some [\<lparr> title = ''Lakers'', tokenID = Some ''111'' \<rparr>,
                        \<lparr> title = ''Celtics'', tokenID = Some ''222'' \<rparr>] \<rparr>"

definition ended_game :: game_row where
  "ended_game =
     \<lparr> row_id = ''g-ended'', row_title = ''Ended'', row_markets = None, closed = False,
       start_date = 982000000, end_date = Some 996400000 \<rparr>"

definition live_game :: game_row where
  "live_game =
     \<lparr> row_id = ''g-live'', row_title = ''Lakers vs Celtics'',
       row_markets = Some [lakers_market], closed = False,
       start_date = 996400000, end_date = Some 1003600000 \<rparr>"

definition game_in_40h :: game_row where
  "game_in_40h =
     \<lparr> row_id = ''g-40h'', row_title = ''In 40 hours'', row_markets = Some [], closed = False,
       start_date = 1144000000, end_date = None \<rparr>"

definition game_in_72h :: game_row where
  "game_in_72h =
     \<lparr> row_id = ''g-72h'', row_title = ''In 72 hours'', row_markets = Some [], closed = False,
       start_date = 1259200000, end_date = None \<rparr>"

definition closed_game :: game_row where
  "closed_game =
     \<lparr> row_id = ''g-closed'', row_title = ''Closed'', row_markets = Some [], closed = True,
       start_date = 990000000, end_date = None \<rparr>"

definition catalog_world :: world where
  "catalog_world =
     \<lparr> clock = 1000000000, net = [], requests = [], console = [],
       db = \<lparr> games = [game_in_72h, game_in_40h, closed_game, live_game, ended_game],
              market_prices = Map.empty, market_price_extremes = Map.empty \<rparr>,
       db_faults = [] \<rparr>"

definition ended_world :: world where
  "ended_world =
     \<lparr> clock = 1000000000, net = [], requests = [], console = [],
       db = \<lparr> games = [ended_game],
              market_prices = Map.empty, market_price_extremes = Map.empty \<rparr>,
       db_faults = [] \<rparr>"



definition both_fields_world :: world where
  "both_fields_world =
     \<lparr> clock = 1000,
       net = [(80, Response 200 (Some \<lparr> price = Str ''0.65'', mid = Str ''0.5'' \<rparr>)),
              (90, Response 200 (Some \<lparr> price = Str '''', mid = Str ''0.5'' \<rparr>)),
              (70, Response 200 (Some \<lparr> price = Str '''', mid = Undefined \<rparr>))],
       requests = [], console = [], db = empty_db, db_faults = [] \<rparr>"

text \<open>A scripted answer of the quote API that is a rate-limit response (status 429).\<close>

fun rate_limited :: "nat \<times> fetch_outcome \<Rightarrow> bool" where
  "rate_limited (latency, Response status body) = (status = 429)"
| "rate_limited (latency, NetworkFailure) = False"

text \<open>Consecutive times of a list are at least \<open>gap\<close> apart.\<close>

fun spaced :: "nat \<Rightarrow> nat list \<Rightarrow> bool" where
  "spaced gap [] = True"
| "spaced gap [t] = True"
| "spaced gap (t # u # ts) = (t + gap \<le> u \<and> spaced gap (u # ts))"

text \<open>
  The request log is paced: consecutive requests are at least \<open>gap\<close> apart and the last
  one was sent at least \<open>gap\<close> ago.
\<close>

definition paced :: "nat \<Rightarrow> world \<Rightarrow> bool" where
  "paced gap w =
     (spaced gap (map fst (requests w)) \<and> (\<forall>x \<in> set (requests w). fst x + gap \<le> clock w))"





text \<open>
  The catalog world with a quote API that answers the two requests of its live game, the
  first with a price and the second with a mid price.
\<close>

definition run_world :: world where
  "run_world =
     catalog_world\<lparr> net := [(150, Response 200 (Some \<lparr> price = Str ''0.3'', mid = Undefined \<rparr>)),
                             (5000, Response 200 (Some \<lparr> price = Undefined, mid = Str ''0.7'' \<rparr>))] \<rparr>"


section \<open>The batch write is idempotent\<close>

lemma insert_price_row_keeps:
  "market_prices d k \<noteq> None \<Longrightarrow> market_prices (insert_price_row now v d) k \<noteq> None"
  by (simp add: insert_price_row_def split: option.splits)

lemma insert_price_row_present:
  "market_prices (insert_price_row now v d) (key_of v) \<noteq> None"
  by (simp add: insert_price_row_def split: option.splits)

lemma insert_price_rows_keeps:
  "market_prices d k \<noteq> None \<Longrightarrow> market_prices (insert_price_rows now vs d) k \<noteq> None"
proof (induction vs arbitrary: d)
  case Nil
  then show ?case by simp
next
  case (Cons a vs)
  from Cons.prems have "market_prices (insert_price_row now a d) k \<noteq> None"
    by (rule insert_price_row_keeps)
  then show ?case using Cons.IH by simp
qed

lemma insert_price_rows_present:
  "v \<in> set vs \<Longrightarrow> market_prices (insert_price_rows now vs d) (key_of v) \<noteq> None"
proof (induction vs arbitrary: d)
  case Nil
  then show ?case by simp
next
  case (Cons a vs)
  show ?case
  proof (cases "v = a")
    case True
    have "market_prices (insert_price_row now a d) (key_of a) \<noteq> None"
      by (rule insert_price_row_present)
    then show ?thesis using True by (simp add: insert_price_rows_keeps)
  next
    case False
    then show ?thesis using Cons by simp
  qed
qed

lemma insert_price_row_skip:
  "market_prices d (key_of v) \<noteq> None \<Longrightarrow> insert_price_row now v d = d"
  by (auto simp: insert_price_row_def split: option.splits)

lemma insert_price_rows_skip:
  "\<forall>v \<in> set vs. market_prices d (key_of v) \<noteq> None \<Longrightarrow> insert_price_rows now vs d = d"
  by (induction vs arbitrary: d) (simp_all add: insert_price_row_skip)

lemma insert_price_rows_twice:
  "insert_price_rows now2 vs (insert_price_rows now1 vs d) = insert_price_rows now1 vs d"
  by (rule insert_price_rows_skip) (simp add: insert_price_rows_present)

text \<open>
  Claim C1. For every batch \<open>B\<close>, once \<open>batchInsertPrices B\<close> has run, running it again
  (after any delay \<open>ms\<close>, and whether or not the second query is rejected) leaves the
  observation relation \<open>market_prices\<close> as the first run left it: every tuple of \<open>B\<close>
  conflicts on (condition_id, token_id, timestamp) and is skipped. No trigger fires, so the
  extremes relation is unchanged as well.
\<close>

theorem batchInsertPrices_idempotent:
  assumes "batchInsertPrices B w = (Inr (), w1)"
    and "batchInsertPrices B (sleep ms w1) = (r, w2)"
  shows "market_prices (db w2) = market_prices (db w1) \<and>
         market_price_extremes (db w2) = market_price_extremes (db w1)"
proof (cases "length B = 0")
  case True
  then show ?thesis using assms by (auto simp: batchInsertPrices_def sleep_def)
next
  case False
  from assms(1) False
  have db1: "db w1 = insert_price_rows (clock w) (map values_of B) (db w)"
    by (auto simp: batchInsertPrices_def query_def console_log_def Let_def
             split: if_splits prod.splits sum.splits)
  from assms(2) False
  have "db w2 = db w1 \<or>
        db w2 = insert_price_rows (clock w1 + ms) (map values_of B) (db w1)"
    by (auto simp: batchInsertPrices_def query_def console_log_def sleep_def Let_def
             split: if_splits prod.splits sum.splits)
  then have "db w2 = db w1"
    by (auto simp: db1 insert_price_rows_twice)
  then show ?thesis by simp
qed

theorem batchInsertPrices_idempotent_witness:
  "fst (batchInsertPrices example_batch idle_world) = Inr () \<and>
   market_prices (db (snd (batchInsertPrices example_batch idle_world)))
     (''0xabc'', ''111'', 1000) \<noteq> None \<and>
   market_prices (db (snd (batchInsertPrices example_batch
      (sleep 5000 (snd (batchInsertPrices example_batch idle_world)))))) =
   market_prices (db (snd (batchInsertPrices example_batch idle_world)))"
proof -
  define w1 where "w1 = snd (batchInsertPrices example_batch idle_world)"
  define w2 where "w2 = snd (batchInsertPrices example_batch (sleep 5000 w1))"
  have ok1: "fst (batchInsertPrices example_batch idle_world) = Inr ()"
    by (simp add: batchInsertPrices_def query_def console_log_def example_batch_def idle_world_def)
  have row: "market_prices (db w1) (''0xabc'', ''111'', 1000) \<noteq> None"
    unfolding w1_def
    by (simp add: batchInsertPrices_def query_def console_log_def example_batch_def idle_world_def
          values_of_def empty_db_def insert_price_row_def)
  have h1: "batchInsertPrices example_batch idle_world = (Inr (), w1)"
    using ok1 unfolding w1_def by (metis prod.collapse)
  have h2: "batchInsertPrices example_batch (sleep 5000 w1) =
              (fst (batchInsertPrices example_batch (sleep 5000 w1)), w2)"
    unfolding w2_def by simp
  have "market_prices (db w2) = market_prices (db w1)"
    using batchInsertPrices_idempotent [OF h1 h2] by simp
  then show ?thesis
    using ok1 row unfolding w1_def w2_def by simp
qed

section \<open>Replaying observations: the extremes\<close>

lemma number_less_Finite [simp]:
  "(Finite a < Finite b) = (a < b)"
  by (auto simp: less_number_def)

lemma inserted_row_sel [simp]:
  "condition_id (inserted_row now v) = fst (outcome_key_of v)"
  "token_id (inserted_row now v) = snd (outcome_key_of v)"
  "price_col (inserted_row now v) = price_of v"
  "timestamp_col (inserted_row now v) = timestamp_of v"
  by (cases v; simp)+


lemma replay_snoc:
  "replay (obs @ [(now, v)]) d = insert_price_row now v (replay obs d)"
  by (induction obs arbitrary: d) auto




lemma replay_keeps_prices:
  "market_prices d k \<noteq> None \<Longrightarrow> market_prices (replay obs d) k \<noteq> None"
proof (induction obs arbitrary: d)
  case Nil
  then show ?case by simp
next
  case (Cons a obs)
  obtain now v where a: "a = (now, v)" by (cases a)
  from Cons.prems have "market_prices (insert_price_row now v d) k \<noteq> None"
    by (rule insert_price_row_keeps)
  then show ?case using Cons.IH by (simp add: a)
qed


lemma insert_price_row_fires:
  "market_prices d (key_of v) = None \<Longrightarrow>
   market_price_extremes (insert_price_row now v d) =
     update_price_extremes now (inserted_row now v) (market_price_extremes d)"
  by (simp add: insert_price_row_def)




section \<open>The invariants of the store\<close>

lemma update_ordered:
  assumes "\<forall>k r. ex k = Some r \<longrightarrow> ordered_extremes r"
    and "update_price_extremes now NEW ex k = Some r"
  shows "ordered_extremes r"
proof (cases "k = (condition_id NEW, token_id NEW)")
  case False
  then have "ex k = Some r" using assms(2)
    by (simp add: update_price_extremes_def split: option.splits)
  then show ?thesis using assms(1) by blast
next
  case True
  show ?thesis
  proof (cases "ex k")
    case None
    then show ?thesis using assms(2) True
      by (auto simp: update_price_extremes_def ordered_extremes_def)
  next
    case (Some old)
    then have "ordered_extremes old" using assms(1) by blast
    then obtain l c h where "lowest_price old = Some l" "current_price old = Some c"
      "highest_price old = Some h"
      by (auto simp: ordered_extremes_def split: option.splits)
    then show ?thesis using assms(2) True Some
      by (auto simp: update_price_extremes_def ordered_extremes_def)
  qed
qed

lemma update_dom:
  "(update_price_extremes now NEW ex k \<noteq> None) =
     (k = (condition_id NEW, token_id NEW) \<or> ex k \<noteq> None)"
  by (auto simp: update_price_extremes_def split: option.splits)

lemma store_invariant_insert:
  assumes "store_invariant d"
  shows "store_invariant (insert_price_row now v d)"
proof (cases "market_prices d (key_of v)")
  case (Some a)
  then show ?thesis using assms by (simp add: insert_price_row_def)
next
  case None
  obtain cid tid oc p ts src where v: "v = (cid, tid, oc, p, ts, src)" by (cases v) auto
  let ?d = "insert_price_row now v d"
  have ex: "market_price_extremes ?d =
            update_price_extremes now (inserted_row now v) (market_price_extremes d)"
    using None by (rule insert_price_row_fires)
  have mp: "market_prices ?d = (market_prices d)((cid, tid, ts) \<mapsto> inserted_row now v)"
    using None by (simp add: insert_price_row_def v)
  have a: "(market_price_extremes ?d (c, t) \<noteq> None) = (\<exists>ts'. market_prices ?d (c, t, ts') \<noteq> None)"
    for c t
  proof (cases "(c, t) = (cid, tid)")
    case True
    then show ?thesis unfolding ex mp update_dom by (auto simp: v)
  next
    case False
    have "(market_price_extremes d (c, t) \<noteq> None) = (\<exists>ts'. market_prices d (c, t, ts') \<noteq> None)"
      using assms unfolding store_invariant_def by blast
    then show ?thesis using False unfolding ex mp update_dom by (auto simp: v)
  qed
  have b: "ordered_extremes r" if "market_price_extremes ?d k = Some r" for k r
    using assms that unfolding ex store_invariant_def by (blast intro: update_ordered)
  show ?thesis unfolding store_invariant_def using a b by blast
qed

lemma store_invariant_replay:
  "store_invariant d \<Longrightarrow> store_invariant (replay obs d)"
proof (induction obs arbitrary: d)
  case Nil
  then show ?case by simp
next
  case (Cons a obs)
  obtain now v where a: "a = (now, v)" by (cases a)
  from Cons.prems have "store_invariant (insert_price_row now v d)"
    by (rule store_invariant_insert)
  then show ?case using Cons.IH by (simp add: a)
qed

lemma replay_prices_keys:
  "(\<exists>ts. market_prices (replay obs d) (cid, tid, ts) \<noteq> None) =
   ((\<exists>ts. market_prices d (cid, tid, ts) \<noteq> None) \<or> (\<exists>x \<in> set obs. outcome_key_of (snd x) = (cid, tid)))"
proof (induction obs arbitrary: d)
  case Nil
  then show ?case by simp
next
  case (Cons a obs)
  obtain now c t oc p ts src where a: "a = (now, (c, t, oc, p, ts, src))"
    by (cases a) auto
  have step: "(\<exists>ts'. market_prices (insert_price_row now (c, t, oc, p, ts, src) d) (cid, tid, ts') \<noteq> None) =
        ((\<exists>ts'. market_prices d (cid, tid, ts') \<noteq> None) \<or> (c, t) = (cid, tid))"
    by (auto simp: insert_price_row_def split: option.splits if_splits)
  show ?case unfolding a replay.simps Cons.IH step by auto
qed

text \<open>
  Claim C3. Start from empty price tables and write any sequence of observations, whatever
  their prices (so in particular prices in [0, 1]). In the store reached, a key has an
  extremes row if and only if an observation for that key is among those written, and
  every extremes row satisfies lowest_price \<open>\<le>\<close> current_price \<open>\<le>\<close> highest_price. Every
  store that inserts alone can produce is covered, hence the state after every update.
\<close>

theorem extremes_invariant:
  assumes "market_prices d0 = Map.empty" and "market_price_extremes d0 = Map.empty"
  shows "(\<forall>cid tid.
            (market_price_extremes (replay obs d0) (cid, tid) \<noteq> None) =
            (\<exists>x \<in> set obs. outcome_key_of (snd x) = (cid, tid))) \<and>
         (\<forall>k r. market_price_extremes (replay obs d0) k = Some r \<longrightarrow>
            (\<exists>l c h. lowest_price r = Some l \<and> current_price r = Some c \<and>
                     highest_price r = Some h \<and> l \<le> c \<and> c \<le> h))"
proof -
  have "store_invariant d0"
    using assms by (simp add: store_invariant_def)
  then have inv: "store_invariant (replay obs d0)"
    by (rule store_invariant_replay)
  have "(market_price_extremes (replay obs d0) (cid, tid) \<noteq> None) =
            (\<exists>x \<in> set obs. outcome_key_of (snd x) = (cid, tid))" for cid tid
  proof -
    have "(market_price_extremes (replay obs d0) (cid, tid) \<noteq> None) =
          (\<exists>ts. market_prices (replay obs d0) (cid, tid, ts) \<noteq> None)"
      using inv unfolding store_invariant_def by blast
    then show ?thesis unfolding replay_prices_keys using assms(1) by simp
  qed
  moreover have "\<exists>l c h. lowest_price r = Some l \<and> current_price r = Some c \<and>
                     highest_price r = Some h \<and> l \<le> c \<and> c \<le> h"
    if "market_price_extremes (replay obs d0) k = Some r" for k r
  proof -
    have "ordered_extremes r" using inv that unfolding store_invariant_def by blast
    then show ?thesis by (auto simp: ordered_extremes_def split: option.splits)
  qed
  ultimately show ?thesis by blast
qed


theorem extremes_invariant_witness:
  "market_prices empty_db = Map.empty \<and> market_price_extremes empty_db = Map.empty \<and>
   market_price_extremes (replay example_obs empty_db) (''0xabc'', ''111'') \<noteq> None \<and>
   market_price_extremes (replay example_obs empty_db) (''0xabc'', ''222'') = None \<and>
   (\<exists>r l c h. market_price_extremes (replay example_obs empty_db) (''0xabc'', ''111'') = Some r \<and>
      lowest_price r = Some l \<and> current_price r = Some c \<and> highest_price r = Some h \<and>
      l \<le> c \<and> c \<le> h)"
proof -
  have h1: "market_prices empty_db = Map.empty"
    by (simp add: empty_db_def)
  have h2: "market_price_extremes empty_db = Map.empty"
    by (simp add: empty_db_def)
  note inv = extremes_invariant [OF h1 h2, of example_obs]
  have yes: "\<exists>x \<in> set example_obs. outcome_key_of (snd x) = (''0xabc'', ''111'')"
    by (simp add: example_obs_def)
  have no: "\<not> (\<exists>x \<in> set example_obs. outcome_key_of (snd x) = (''0xabc'', ''222''))"
    by (simp add: example_obs_def)
  have a: "market_price_extremes (replay example_obs empty_db) (''0xabc'', ''111'') \<noteq> None"
    using inv yes by blast
  have b: "market_price_extremes (replay example_obs empty_db) (''0xabc'', ''222'') = None"
    using inv no by blast
  from a obtain r where
    r: "market_price_extremes (replay example_obs empty_db) (''0xabc'', ''111'') = Some r"
    by blast
  with inv have "\<exists>l c h. lowest_price r = Some l \<and> current_price r = Some c \<and>
                     highest_price r = Some h \<and> l \<le> c \<and> c \<le> h"
    by blast
  then show ?thesis using h1 h2 a b r by blast
qed

section \<open>The liveness queries\<close>

lemma query_read:
  "query (\<lambda>now d. (f now d, d)) w = (Inr res, w1) \<Longrightarrow> res = f (clock w) (db w)"
  by (auto simp: query_def Let_def console_log_def split: if_splits)

lemma getActiveGames_rows:
  "getActiveGames w = (Inr gs, w1) \<Longrightarrow>
   gs = map game_of_row (select_active_games (clock w) (db w))"
  by (auto simp: getActiveGames_def split: prod.splits sum.splits dest: query_read)

text \<open>
  Claim C5, as stated, fails: a game that has started and whose end date has passed, but
  which is not closed, is still returned.
\<close>

theorem getActiveGames_ended_counterexample:
  "fst (getActiveGames ended_world) = Inr [game_of_row ended_game] \<and>
   \<not> spec_trackable (clock ended_world) ended_game"
  by (simp add: getActiveGames_def query_def console_log_def select_active_games_def
        is_active_game_def spec_trackable_def ended_world_def ended_game_def hours_48_def)

text \<open>
  Claim C5, amended. \<open>getActiveGames\<close> returns exactly the rows that are not closed and
  have either started (start \<open>\<le>\<close> now, whatever the end date) or start within the next 48
  hours (now \<open><\<close> start \<open><\<close> now + 48 h), ordered by start time ascending, each as a game with
  its moneyline markets. So a game starting in 72 hours is excluded, and a game starting
  in 40 hours that is not closed is included.
\<close>

theorem getActiveGames_returns:
  assumes "getActiveGames w = (Inr gs, w1)"
  shows "\<exists>rows. gs = map game_of_row rows \<and>
           mset rows =
             filter_mset
               (\<lambda>g. closed g = False \<and>
                     (start_date g \<le> clock w \<or>
                      (clock w < start_date g \<and> start_date g < clock w + 48 * 60 * 60 * 1000)))
               (mset (games (db w))) \<and>
           sorted (map start_date rows) \<and>
           (\<forall>g \<in> set (games (db w)).
              start_date g = clock w + 72 * 60 * 60 * 1000 \<longrightarrow> g \<notin> set rows) \<and>
           (\<forall>g \<in> set (games (db w)).
              closed g = False \<and> start_date g = clock w + 40 * 60 * 60 * 1000 \<longrightarrow> g \<in> set rows)"
proof -
  let ?rows = "select_active_games (clock w) (db w)"
  have gs: "gs = map game_of_row ?rows"
    using assms by (rule getActiveGames_rows)
  have pred: "is_active_game (clock w) =
     (\<lambda>g. closed g = False \<and>
           (start_date g \<le> clock w \<or>
            (clock w < start_date g \<and> start_date g < clock w + 48 * 60 * 60 * 1000)))"
    by (auto simp: is_active_game_def hours_48_def fun_eq_iff)
  have m: "mset ?rows = filter_mset (is_active_game (clock w)) (mset (games (db w)))"
    by (simp add: select_active_games_def)
  have s: "sorted (map start_date ?rows)"
    by (simp add: select_active_games_def)
  have set_rows: "set ?rows = {g \<in> set (games (db w)). is_active_game (clock w) g}"
    by (simp add: select_active_games_def)
  have out: "\<forall>g \<in> set (games (db w)).
              start_date g = clock w + 72 * 60 * 60 * 1000 \<longrightarrow> g \<notin> set ?rows"
    unfolding set_rows by (simp add: is_active_game_def hours_48_def)
  have incl: "\<forall>g \<in> set (games (db w)).
              closed g = False \<and> start_date g = clock w + 40 * 60 * 60 * 1000 \<longrightarrow> g \<in> set ?rows"
    unfolding set_rows by (simp add: is_active_game_def hours_48_def)
  show ?thesis
    using gs m s out incl unfolding pred by blast
qed

theorem getActiveGames_returns_witness:
  "fst (getActiveGames catalog_world) =
     Inr (map game_of_row [ended_game, live_game, game_in_40h]) \<and>
   start_date game_in_72h = clock catalog_world + 72 * 60 * 60 * 1000 \<and>
   closed game_in_40h = False \<and>
   start_date game_in_40h = clock catalog_world + 40 * 60 * 60 * 1000 \<and>
   (\<exists>rows. map game_of_row [ended_game, live_game, game_in_40h] = map game_of_row rows \<and>
      sorted (map start_date rows) \<and> game_in_72h \<notin> set rows \<and> game_in_40h \<in> set rows)"
proof -
  have run: "fst (getActiveGames catalog_world) =
               Inr (map game_of_row [ended_game, live_game, game_in_40h])"
    by (simp add: getActiveGames_def query_def console_log_def select_active_games_def
          is_active_game_def catalog_world_def ended_game_def live_game_def game_in_40h_def
          game_in_72h_def closed_game_def hours_48_def)
  then have h: "getActiveGames catalog_world =
      (Inr (map game_of_row [ended_game, live_game, game_in_40h]), snd (getActiveGames catalog_world))"
    by (metis prod.collapse)
  have a: "start_date game_in_72h = clock catalog_world + 72 * 60 * 60 * 1000"
    by (simp add: game_in_72h_def catalog_world_def)
  have b: "closed game_in_40h = False \<and>
           start_date game_in_40h = clock catalog_world + 40 * 60 * 60 * 1000"
    by (simp add: game_in_40h_def catalog_world_def)
  have mem: "game_in_72h \<in> set (games (db catalog_world))"
            "game_in_40h \<in> set (games (db catalog_world))"
    by (simp_all add: catalog_world_def)
  from getActiveGames_returns [OF h] obtain rows where
    rows: "map game_of_row [ended_game, live_game, game_in_40h] = map game_of_row rows"
      "sorted (map start_date rows)"
      "\<forall>g \<in> set (games (db catalog_world)).
          start_date g = clock catalog_world + 72 * 60 * 60 * 1000 \<longrightarrow> g \<notin> set rows"
      "\<forall>g \<in> set (games (db catalog_world)).
          closed g = False \<and> start_date g = clock catalog_world + 40 * 60 * 60 * 1000 \<longrightarrow>
          g \<in> set rows"
    by blast
  from rows(3) mem(1) a have "game_in_72h \<notin> set rows" by blast
  moreover from rows(4) mem(2) b have "game_in_40h \<in> set rows" by blast
  ultimately show ?thesis using run a b rows(1,2) by blast
qed

lemma shouldUseHighFrequency_row:
  "shouldUseHighFrequency w = (Inr fc, w1) \<Longrightarrow>
   fc = frequency_of_row (select_frequency_row (clock w) (db w))"
  by (auto simp: shouldUseHighFrequency_def split: prod.splits sum.splits dest: query_read)

text \<open>
  Claim C8. Call a game qualifying when it is not closed and starts before now + 48 h.
  The frequency decision is high-frequency if and only if some qualifying game has started
  (start \<open>\<le>\<close> now) or starts within the next 10 minutes (now \<open><\<close> start \<open>\<le>\<close> now + 10 min);
  otherwise it is low-frequency. When no game qualifies the decision is low-frequency, the
  reason is "No upcoming games" and the next start time is absent.
\<close>

theorem shouldUseHighFrequency_decision:
  assumes "shouldUseHighFrequency w = (Inr fc, w1)"
  shows "(highFrequency fc =
           (\<exists>g \<in> set (games (db w)).
              closed g = False \<and> start_date g < clock w + 48 * 60 * 60 * 1000 \<and>
              (start_date g \<le> clock w \<or>
               (clock w < start_date g \<and> start_date g \<le> clock w + 10 * 60 * 1000)))) \<and>
         (\<not> (\<exists>g \<in> set (games (db w)).
               closed g = False \<and> start_date g < clock w + 48 * 60 * 60 * 1000) \<longrightarrow>
          highFrequency fc = False \<and> reason fc = NoUpcomingGames \<and> nextGameStart fc = None)"
proof -
  let ?q = "filter (\<lambda>g. closed g = False \<and> start_date g < clock w + hours_48) (games (db w))"
  let ?row = "select_frequency_row (clock w) (db w)"
  have fc: "fc = frequency_of_row ?row"
    using assms by (rule shouldUseHighFrequency_row)
  have act: "(0 < active_count ?row) = (\<exists>g \<in> set ?q. start_date g \<le> clock w)"
    by (auto simp: select_frequency_row_def Let_def filter_empty_conv)
  have upc: "(0 < upcoming_count ?row) =
        (\<exists>g \<in> set ?q. clock w < start_date g \<and> start_date g \<le> clock w + minutes_10)"
    by (auto simp: select_frequency_row_def Let_def filter_empty_conv)
  have high: "highFrequency fc = (0 < active_count ?row \<or> 0 < upcoming_count ?row)"
    unfolding fc by (simp add: frequency_of_row_def)
  have first: "highFrequency fc =
           (\<exists>g \<in> set (games (db w)).
              closed g = False \<and> start_date g < clock w + 48 * 60 * 60 * 1000 \<and>
              (start_date g \<le> clock w \<or>
               (clock w < start_date g \<and> start_date g \<le> clock w + 10 * 60 * 1000)))"
    unfolding high act upc by (auto simp: hours_48_def minutes_10_def)
  have second: "highFrequency fc = False \<and> reason fc = NoUpcomingGames \<and> nextGameStart fc = None"
    if none: "\<not> (\<exists>g \<in> set (games (db w)).
               closed g = False \<and> start_date g < clock w + 48 * 60 * 60 * 1000)"
  proof -
    have "?q = []" using none by (auto simp: filter_empty_conv hours_48_def)
    then have "active_count ?row = 0" "upcoming_count ?row = 0" "next_start_date ?row = None"
      by (simp_all add: select_frequency_row_def Let_def)
    then show ?thesis unfolding fc by (simp add: frequency_of_row_def)
  qed
  show ?thesis using first second by blast
qed

theorem shouldUseHighFrequency_decision_witness:
  "fst (shouldUseHighFrequency catalog_world) =
     Inr \<lparr> highFrequency = True, reason = ActiveGamesInProgress 2,
           nextGameStart = Some 1144000000 \<rparr> \<and>
   (\<exists>g \<in> set (games (db catalog_world)).
      closed g = False \<and> start_date g < clock catalog_world + 48 * 60 * 60 * 1000 \<and>
      (start_date g \<le> clock catalog_world \<or>
       (clock catalog_world < start_date g \<and>
        start_date g \<le> clock catalog_world + 10 * 60 * 1000))) \<and>
   fst (shouldUseHighFrequency idle_world) =
     Inr \<lparr> highFrequency = False, reason = NoUpcomingGames, nextGameStart = None \<rparr> \<and>
   \<not> (\<exists>g \<in> set (games (db idle_world)).
        closed g = False \<and> start_date g < clock idle_world + 48 * 60 * 60 * 1000)"
proof -
  define fc where "fc = frequency_of_row (select_frequency_row (clock catalog_world) (db catalog_world))"
  define fi where "fi = frequency_of_row (select_frequency_row (clock idle_world) (db idle_world))"
  have r1: "shouldUseHighFrequency catalog_world = (Inr fc, snd (shouldUseHighFrequency catalog_world))"
    by (simp add: shouldUseHighFrequency_def query_def console_log_def catalog_world_def fc_def)
  have r2: "shouldUseHighFrequency idle_world = (Inr fi, snd (shouldUseHighFrequency idle_world))"
    by (simp add: shouldUseHighFrequency_def query_def console_log_def idle_world_def fi_def)
  have none: "\<not> (\<exists>g \<in> set (games (db idle_world)).
        closed g = False \<and> start_date g < clock idle_world + 48 * 60 * 60 * 1000)"
    by (simp add: idle_world_def empty_db_def)
  have some: "\<exists>g \<in> set (games (db catalog_world)).
      closed g = False \<and> start_date g < clock catalog_world + 48 * 60 * 60 * 1000 \<and>
      (start_date g \<le> clock catalog_world \<or>
       (clock catalog_world < start_date g \<and>
        start_date g \<le> clock catalog_world + 10 * 60 * 1000))"
    by (simp add: catalog_world_def live_game_def)
  have hi: "highFrequency fc = True"
    using shouldUseHighFrequency_decision [OF r1] some by blast
  have lo: "highFrequency fi = False \<and> reason fi = NoUpcomingGames \<and> nextGameStart fi = None"
    using shouldUseHighFrequency_decision [OF r2] none by blast
  have v1: "fc = \<lparr> highFrequency = True, reason = ActiveGamesInProgress 2,
           nextGameStart = Some 1144000000 \<rparr>"
    using hi
    by (simp add: fc_def frequency_of_row_def select_frequency_row_def catalog_world_def
          ended_game_def live_game_def game_in_40h_def game_in_72h_def closed_game_def
          hours_48_def minutes_10_def)
  have v2: "fi = \<lparr> highFrequency = False, reason = NoUpcomingGames, nextGameStart = None \<rparr>"
    using lo by (cases fi) simp
  show ?thesis
    using r1 r2 v1 v2 some none by (metis fst_conv)
qed

section \<open>The quote client\<close>


lemma parseFloat_065: "parseFloat ''0.65'' = Finite (13 / 20)"
  by (simp add: parseFloat_def is_white_space_def is_digit_def digits_value_def
        exponent_part_def scale10_def)

lemma parseFloat_05: "parseFloat ''0.5'' = Finite (1 / 2)"
  by (simp add: parseFloat_def is_white_space_def is_digit_def digits_value_def
        exponent_part_def scale10_def)




text \<open>
  Claim C10. For a success response whose body has a non-empty \<open>price\<close> string,
  \<open>fetchTokenPrice\<close> returns \<open>parseFloat\<close> of that string, whatever \<open>mid\<close> holds. When
  \<open>price\<close> is the empty string it falls back to \<open>mid\<close>: a non-empty \<open>mid\<close> string is
  parsed and returned, and with \<open>mid\<close> absent the result is null, the empty string not
  being parsed.
\<close>

theorem fetchTokenPrice_price_or_mid:
  assumes "net w = (latency, Response status (Some data)) # rest"
    and "ok status"
  shows "(\<forall>p. price data = Str p \<and> p \<noteq> [] \<longrightarrow>
            fetchTokenPrice tokenId w =
              Some (Some (parseFloat p),
                    w\<lparr> net := rest, requests := requests w @ [(clock w, tokenId)],
                       clock := clock w + latency \<rparr>)) \<and>
         (\<forall>q. price data = Str [] \<and> mid data = Str q \<and> q \<noteq> [] \<longrightarrow>
            fetchTokenPrice tokenId w =
              Some (Some (parseFloat q),
                    w\<lparr> net := rest, requests := requests w @ [(clock w, tokenId)],
                       clock := clock w + latency \<rparr>)) \<and>
         (price data = Str [] \<and> mid data = Undefined \<longrightarrow>
            fetchTokenPrice tokenId w =
              Some (None,
                    console_log (LogNoPriceData tokenId)
                      (w\<lparr> net := rest, requests := requests w @ [(clock w, tokenId)],
                          clock := clock w + latency \<rparr>)))"
  using assms by (auto simp: fetchTokenPrice.simps fetch_def)

theorem fetchTokenPrice_price_or_mid_witness:
  "map_option fst (fetchTokenPrice ''111'' both_fields_world) = Some (Some (Finite (13 / 20))) \<and>
   map_option fst (fetchTokenPrice ''111'' (both_fields_world\<lparr> net := tl (net both_fields_world) \<rparr>)) =
     Some (Some (Finite (1 / 2))) \<and>
   map_option fst
     (fetchTokenPrice ''111'' (both_fields_world\<lparr> net := tl (tl (net both_fields_world)) \<rparr>)) =
     Some None"
proof -
  let ?d1 = "\<lparr> price = Str ''0.65'', mid = Str ''0.5'' \<rparr>"
  let ?d2 = "\<lparr> price = Str '''', mid = Str ''0.5'' \<rparr>"
  let ?d3 = "\<lparr> price = Str '''', mid = Undefined \<rparr>"
  let ?w2 = "both_fields_world\<lparr> net := tl (net both_fields_world) \<rparr>"
  let ?w3 = "both_fields_world\<lparr> net := tl (tl (net both_fields_world)) \<rparr>"
  have ok200: "ok 200" by (simp add: ok_def)
  have n1: "net both_fields_world =
              (80, Response 200 (Some ?d1)) # [(90, Response 200 (Some ?d2)), (70, Response 200 (Some ?d3))]"
    by (simp add: both_fields_world_def)
  have n2: "net ?w2 = (90, Response 200 (Some ?d2)) # [(70, Response 200 (Some ?d3))]"
    by (simp add: both_fields_world_def)
  have n3: "net ?w3 = (70, Response 200 (Some ?d3)) # []"
    by (simp add: both_fields_world_def)
  have a: "map_option fst (fetchTokenPrice ''111'' both_fields_world) = Some (Some (parseFloat ''0.65''))"
    using fetchTokenPrice_price_or_mid [OF n1 ok200, of "''111''"] by simp
  have b: "map_option fst (fetchTokenPrice ''111'' ?w2) = Some (Some (parseFloat ''0.5''))"
    using fetchTokenPrice_price_or_mid [OF n2 ok200, of "''111''"] by simp
  have c: "map_option fst (fetchTokenPrice ''111'' ?w3) = Some None"
    using fetchTokenPrice_price_or_mid [OF n3 ok200, of "''111''"] by simp
  show ?thesis using a b c by (simp add: parseFloat_065 parseFloat_05)
qed

section \<open>Retrying after a rate-limit response\<close>

lemma spaced_Cons:
  "spaced gap (t # ts) = ((\<forall>u \<in> set (take 1 ts). t + gap \<le> u) \<and> spaced gap ts)"
  by (cases ts) auto

lemma spaced_lower:
  "spaced gap (t # ts) \<Longrightarrow> u \<in> set ts \<Longrightarrow> t + gap \<le> u"
proof (induction ts arbitrary: t)
  case Nil
  then show ?case by simp
next
  case (Cons a ts)
  from Cons.prems(1) have a: "t + gap \<le> a" and rest: "spaced gap (a # ts)"
    by simp_all
  show ?case
  proof (cases "u = a")
    case True
    then show ?thesis using a by simp
  next
    case False
    then have "u \<in> set ts" using Cons.prems(2) by simp
    from Cons.IH [OF rest this] have "a + gap \<le> u" .
    then show ?thesis using a by simp
  qed
qed

lemma spaced_append:
  assumes "spaced gap xs" and "spaced gap ys"
    and "\<forall>x \<in> set xs. \<forall>y \<in> set ys. x + gap \<le> y"
  shows "spaced gap (xs @ ys)"
  using assms
proof (induction xs)
  case Nil
  then show ?case by simp
next
  case (Cons x xs)
  have tail: "spaced gap (xs @ ys)"
    using Cons by (simp add: spaced_Cons)
  have "\<forall>u \<in> set (take 1 (xs @ ys)). x + gap \<le> u"
  proof (cases xs)
    case Nil
    then show ?thesis using Cons.prems(3) by (auto dest: in_set_takeD)
  next
    case (Cons a as)
    then show ?thesis using Cons.prems(1) by simp
  qed
  then show ?case using tail by (simp add: spaced_Cons)
qed

lemma spaced_mono:
  "spaced gap ts \<Longrightarrow> gap' \<le> gap \<Longrightarrow> spaced gap' ts"
proof (induction gap ts rule: spaced.induct)
  case (3 gap t u ts)
  then show ?case by simp
qed simp_all

text \<open>One attempt of \<open>fetchTokenPrice\<close>: a rate-limit response leads to a retry.\<close>

lemma fetchTokenPrice_retry:
  assumes "net w = (latency, Response 429 body) # rest"
  shows "fetchTokenPrice tokenId w =
           fetchTokenPrice tokenId
             (sleep 30000 (console_log LogRateLimited
                (w\<lparr> net := rest, requests := requests w @ [(clock w, tokenId)],
                    clock := clock w + latency \<rparr>)))"
  using assms by (subst fetchTokenPrice.simps) (simp add: fetch_def ok_def)

lemma fetchTokenPrice_last:
  assumes "net w = (latency, out) # rest" and "\<not> rate_limited (latency, out)"
  shows "\<exists>res l. fetchTokenPrice tokenId w =
           Some (res, w\<lparr> net := rest, requests := requests w @ [(clock w, tokenId)],
                         clock := clock w + latency, console := console w @ l \<rparr>)"
proof -
  let ?W = "\<lambda>l. w\<lparr> net := rest, requests := requests w @ [(clock w, tokenId)],
                    clock := clock w + latency, console := console w @ l \<rparr>"
  have f: "fetch tokenId w = Some (out, ?W [])"
    using assms(1) by (simp add: fetch_def)
  show ?thesis
  proof (cases out)
    case NetworkFailure
    have "fetchTokenPrice tokenId w = Some (None, ?W [LogFetchError tokenId])"
      by (subst fetchTokenPrice.simps) (simp add: f NetworkFailure console_log_def)
    then show ?thesis by blast
  next
    case (Response status body)
    then have not429: "status \<noteq> 429" using assms(2) by simp
    show ?thesis
    proof (cases "ok status")
      case False
      have "fetchTokenPrice tokenId w = Some (None, ?W [LogFetchFailed tokenId status])"
        by (subst fetchTokenPrice.simps) (simp add: f Response False not429 console_log_def)
      then show ?thesis by blast
    next
      case True
      show ?thesis
      proof (cases body)
        case None
        have "fetchTokenPrice tokenId w = Some (None, ?W [LogFetchError tokenId])"
          by (subst fetchTokenPrice.simps) (simp add: f Response True None console_log_def)
        then show ?thesis by blast
      next
        case (Some data)
        show ?thesis
        proof (cases "js_or (price data) (mid data)")
          case (Str p)
          have "fetchTokenPrice tokenId w = Some (Some (parseFloat p), ?W [])"
            by (subst fetchTokenPrice.simps) (simp add: f Response True Some Str)
          then show ?thesis by blast
        next
          case Undefined
          have "fetchTokenPrice tokenId w = Some (None, ?W [LogNoPriceData tokenId])"
            by (subst fetchTokenPrice.simps) (simp add: f Response True Some Undefined console_log_def)
          then show ?thesis by blast
        next
          case Null
          have "fetchTokenPrice tokenId w = Some (None, ?W [LogNoPriceData tokenId])"
            by (subst fetchTokenPrice.simps) (simp add: f Response True Some Null console_log_def)
          then show ?thesis by blast
        qed
      qed
    qed
  qed
qed

lemma fetchTokenPrice_all_rate_limited:
  "net w = script \<Longrightarrow> \<forall>x \<in> set script. rate_limited x \<Longrightarrow> fetchTokenPrice tokenId w = None"
proof (induction script arbitrary: w)
  case Nil
  then show ?case by (simp add: fetchTokenPrice.simps fetch_def)
next
  case (Cons a script)
  obtain latency out where a: "a = (latency, out)" by (cases a)
  from Cons.prems(2) have "rate_limited (latency, out)" by (simp add: a)
  then obtain body where out: "out = Response 429 body"
    by (cases out) simp_all
  let ?w = "sleep 30000 (console_log LogRateLimited
                (w\<lparr> net := script, requests := requests w @ [(clock w, tokenId)],
                    clock := clock w + latency \<rparr>))"
  have "net ?w = script" by (simp add: sleep_def console_log_def)
  moreover have "\<forall>x \<in> set script. rate_limited x" using Cons.prems(2) by simp
  ultimately have "fetchTokenPrice tokenId ?w = None" by (rule Cons.IH)
  moreover have "net w = (latency, Response 429 body) # script"
    using Cons.prems(1) by (simp add: a out)
  ultimately show ?case by (simp add: fetchTokenPrice_retry)
qed

lemma fetchTokenPrice_after_rate_limits:
  assumes "net w = pre @ (latency, out) # rest"
    and "\<forall>x \<in> set pre. rate_limited x"
  shows "\<exists>w0 new. fetchTokenPrice tokenId w = fetchTokenPrice tokenId w0 \<and>
           net w0 = (latency, out) # rest \<and>
           requests w0 = requests w @ new \<and> length new = length pre \<and>
           spaced 30000 (map fst new) \<and>
           (\<forall>x \<in> set new. snd x = tokenId \<and> clock w \<le> fst x \<and> fst x + 30000 \<le> clock w0) \<and>
           clock w \<le> clock w0 \<and> db w0 = db w \<and> db_faults w0 = db_faults w \<and>
           console w0 = console w @ replicate (length pre) LogRateLimited"
  using assms
proof (induction pre arbitrary: w)
  case Nil
  have "fetchTokenPrice tokenId w = fetchTokenPrice tokenId w \<and>
           net w = (latency, out) # rest \<and>
           requests w = requests w @ [] \<and> length ([] :: (nat \<times> string) list) = length ([] :: (nat \<times> fetch_outcome) list) \<and>
           spaced 30000 (map fst ([] :: (nat \<times> string) list)) \<and>
           (\<forall>x \<in> set ([] :: (nat \<times> string) list). snd x = tokenId \<and> clock w \<le> fst x \<and> fst x + 30000 \<le> clock w) \<and>
           clock w \<le> clock w \<and> db w = db w \<and> db_faults w = db_faults w \<and>
           console w = console w @ replicate (length ([] :: (nat \<times> fetch_outcome) list)) LogRateLimited"
    using Nil.prems(1) by simp
  then show ?case by blast
next
  case (Cons a pre)
  obtain l o' where a: "a = (l, o')" by (cases a)
  from Cons.prems(2) have "rate_limited (l, o')" by (simp add: a)
  then obtain body where o': "o' = Response 429 body"
    by (cases o') simp_all
  define w' where "w' = sleep 30000 (console_log LogRateLimited
                (w\<lparr> net := pre @ (latency, out) # rest,
                    requests := requests w @ [(clock w, tokenId)],
                    clock := clock w + l \<rparr>))"
  have netw: "net w = (l, Response 429 body) # (pre @ (latency, out) # rest)"
    using Cons.prems(1) by (simp add: a o')
  have step: "fetchTokenPrice tokenId w = fetchTokenPrice tokenId w'"
    unfolding w'_def using netw by (rule fetchTokenPrice_retry)
  have w'_sel: "net w' = pre @ (latency, out) # rest"
    "requests w' = requests w @ [(clock w, tokenId)]"
    "clock w' = clock w + l + 30000" "db w' = db w" "db_faults w' = db_faults w"
    "console w' = console w @ [LogRateLimited]"
    by (simp_all add: w'_def sleep_def console_log_def)
  have "\<forall>x \<in> set pre. rate_limited x" using Cons.prems(2) by simp
  from Cons.IH [OF w'_sel(1) this] obtain w0 new where
    eq: "fetchTokenPrice tokenId w' = fetchTokenPrice tokenId w0"
    and n0: "net w0 = (latency, out) # rest"
    and r0: "requests w0 = requests w' @ new"
    and len: "length new = length pre"
    and sp: "spaced 30000 (map fst new)"
    and each: "\<forall>x \<in> set new. snd x = tokenId \<and> clock w' \<le> fst x \<and> fst x + 30000 \<le> clock w0"
    and clk: "clock w' \<le> clock w0"
    and same: "db w0 = db w'" "db_faults w0 = db_faults w'"
    and con: "console w0 = console w' @ replicate (length pre) LogRateLimited"
    by blast
  let ?new = "(clock w, tokenId) # new"
  have con': "console w0 = console w @ replicate (length (a # pre)) LogRateLimited"
    using con by (simp add: w'_sel(6))
  have clk': "clock w \<le> clock w0"
    using clk by (simp add: w'_sel(3))
  have low: "clock w + 30000 \<le> u" if "u \<in> set (map fst new)" for u
  proof -
    from that obtain x where "x \<in> set new" "u = fst x" by auto
    with each have "clock w' \<le> u" by blast
    then show ?thesis by (simp add: w'_sel(3))
  qed
  have sp': "spaced 30000 (map fst ?new)"
    using sp low by (auto simp: spaced_Cons dest: in_set_takeD)
  have each': "\<forall>x \<in> set ?new. snd x = tokenId \<and> clock w \<le> fst x \<and> fst x + 30000 \<le> clock w0"
    using each clk by (auto simp: w'_sel(3))
  have "fetchTokenPrice tokenId w = fetchTokenPrice tokenId w0 \<and>
           net w0 = (latency, out) # rest \<and>
           requests w0 = requests w @ ?new \<and> length ?new = length (a # pre) \<and>
           spaced 30000 (map fst ?new) \<and>
           (\<forall>x \<in> set ?new. snd x = tokenId \<and> clock w \<le> fst x \<and> fst x + 30000 \<le> clock w0) \<and>
           clock w \<le> clock w0 \<and> db w0 = db w \<and> db_faults w0 = db_faults w \<and>
           console w0 = console w @ replicate (length (a # pre)) LogRateLimited"
    using step eq n0 r0 len sp' each' clk same con' clk'
    by (simp add: w'_sel(2,4,5) del: spaced.simps)
  then show ?case by blast
qed

lemma console_log_sel [simp]:
  "clock (console_log l w) = clock w"
  "net (console_log l w) = net w"
  "requests (console_log l w) = requests w"
  "db (console_log l w) = db w"
  "db_faults (console_log l w) = db_faults w"
  "console (console_log l w) = console w @ [l]"
  by (simp_all add: console_log_def)

lemma sleep_sel [simp]:
  "clock (sleep ms w) = clock w + ms"
  "net (sleep ms w) = net w"
  "requests (sleep ms w) = requests w"
  "db (sleep ms w) = db w"
  "db_faults (sleep ms w) = db_faults w"
  "console (sleep ms w) = console w"
  by (simp_all add: sleep_def)


lemma spaced_snoc:
  assumes "spaced gap ts" and "\<forall>t \<in> set ts. t + gap \<le> u"
  shows "spaced gap (ts @ [u])"
  using assms by (intro spaced_append) simp_all









section \<open>The pace of a collection run\<close>

lemma DELAY_BETWEEN_REQUESTS_value: "DELAY_BETWEEN_REQUESTS = 667"
proof -
  have "\<lceil>(60000 :: rat) / 90\<rceil> = 667"
    by (rule ceiling_unique) simp_all
  then show ?thesis
    by (simp add: DELAY_BETWEEN_REQUESTS_def RATE_LIMIT_PER_MINUTE_def)
qed

lemma fetchTokenPrice_requests:
  assumes "fetchTokenPrice tokenId w = Some (res, w1)"
  shows "\<exists>new. requests w1 = requests w @ new \<and> spaced 30000 (map fst new) \<and>
           (\<forall>x \<in> set new. clock w \<le> fst x \<and> fst x \<le> clock w1) \<and> clock w \<le> clock w1"
proof -
  let ?pre = "takeWhile rate_limited (net w)"
  let ?post = "dropWhile rate_limited (net w)"
  have pre: "\<forall>x \<in> set ?pre. rate_limited x"
    by (auto dest: set_takeWhileD)
  have "?post \<noteq> []"
  proof
    assume "?post = []"
    then have "\<forall>x \<in> set (net w). rate_limited x" by (simp add: dropWhile_eq_Nil_conv)
    then have "fetchTokenPrice tokenId w = None"
      by (rule fetchTokenPrice_all_rate_limited [OF refl])
    then show False using assms by simp
  qed
  then obtain latency out rest where post: "?post = (latency, out) # rest"
    by (cases ?post) auto
  have not: "\<not> rate_limited (latency, out)"
    using hd_dropWhile [of rate_limited "net w"] \<open>?post \<noteq> []\<close> post by simp
  have split: "net w = ?pre @ (latency, out) # rest"
    using takeWhile_dropWhile_id [of rate_limited "net w"] post by simp
  from fetchTokenPrice_after_rate_limits [OF split pre, of tokenId] obtain w0 new where
    eq: "fetchTokenPrice tokenId w = fetchTokenPrice tokenId w0"
    and n0: "net w0 = (latency, out) # rest"
    and r0: "requests w0 = requests w @ new"
    and sp: "spaced 30000 (map fst new)"
    and each: "\<forall>x \<in> set new. snd x = tokenId \<and> clock w \<le> fst x \<and> fst x + 30000 \<le> clock w0"
    and clk: "clock w \<le> clock w0"
    by blast
  from fetchTokenPrice_last [OF n0 not, of tokenId] obtain res' l where
    "fetchTokenPrice tokenId w0 =
       Some (res', w0\<lparr> net := rest, requests := requests w0 @ [(clock w0, tokenId)],
                       clock := clock w0 + latency, console := console w0 @ l \<rparr>)"
    by blast
  with eq assms have w1: "w1 = w0\<lparr> net := rest, requests := requests w0 @ [(clock w0, tokenId)],
                       clock := clock w0 + latency, console := console w0 @ l \<rparr>"
    by simp
  have sp1: "spaced 30000 (map fst (new @ [(clock w0, tokenId)]))"
    using sp each by (simp add: spaced_snoc)
  have "requests w1 = requests w @ (new @ [(clock w0, tokenId)]) \<and>
        spaced 30000 (map fst (new @ [(clock w0, tokenId)])) \<and>
        (\<forall>x \<in> set (new @ [(clock w0, tokenId)]). clock w \<le> fst x \<and> fst x \<le> clock w1) \<and>
        clock w \<le> clock w1"
    using r0 sp1 each clk by (auto simp: w1)
  then show ?thesis by blast
qed

lemma paced_later:
  "paced gap w \<Longrightarrow> requests w' = requests w \<Longrightarrow> clock w \<le> clock w' \<Longrightarrow> paced gap w'"
  by (fastforce simp: paced_def)

lemma fetchTokenPrice_paced:
  assumes "paced gap w" and "gap \<le> 30000"
    and "fetchTokenPrice tokenId w = Some (res, w1)"
    and "requests w' = requests w1" and "clock w1 + gap \<le> clock w'"
  shows "paced gap w'"
proof -
  from fetchTokenPrice_requests [OF assms(3)] obtain new where
    r: "requests w1 = requests w @ new" and sp: "spaced 30000 (map fst new)"
    and each: "\<forall>x \<in> set new. clock w \<le> fst x \<and> fst x \<le> clock w1"
    and clk: "clock w \<le> clock w1"
    by blast
  have old: "spaced gap (map fst (requests w))" "\<forall>x \<in> set (requests w). fst x + gap \<le> clock w"
    using assms(1) by (simp_all add: paced_def)
  have "spaced gap (map fst new)"
    using sp assms(2) by (rule spaced_mono)
  with old(1) have "spaced gap (map fst (requests w) @ map fst new)"
  proof (rule spaced_append)
    show "\<forall>x \<in> set (map fst (requests w)). \<forall>y \<in> set (map fst new). x + gap \<le> y"
      using old(2) each by fastforce
  qed
  then have a: "spaced gap (map fst (requests w'))"
    by (simp add: assms(4) r)
  have b: "\<forall>x \<in> set (requests w'). fst x + gap \<le> clock w'"
  proof
    fix x assume "x \<in> set (requests w')"
    then consider "x \<in> set (requests w)" | "x \<in> set new"
      by (auto simp: assms(4) r)
    then show "fst x + gap \<le> clock w'"
    proof cases
      case 1
      then have "fst x + gap \<le> clock w" using old(2) by blast
      then show ?thesis using clk assms(5) by simp
    next
      case 2
      then have "fst x \<le> clock w1" using each by blast
      then show ?thesis using assms(5) by simp
    qed
  qed
  show ?thesis using a b by (simp add: paced_def)
qed

lemma query_frame:
  "query stmt w = (r, w1) \<Longrightarrow>
   requests w1 = requests w \<and> clock w1 = clock w \<and> net w1 = net w"
  by (auto simp: query_def Let_def split: if_splits prod.splits)

lemma getActiveGames_frame:
  "getActiveGames w = (r, w1) \<Longrightarrow>
   requests w1 = requests w \<and> clock w1 = clock w \<and> net w1 = net w"
  by (auto simp: getActiveGames_def split: prod.splits sum.splits dest: query_frame)

lemma batchInsertPrices_frame:
  "batchInsertPrices recs w = (r, w1) \<Longrightarrow>
   requests w1 = requests w \<and> clock w1 = clock w \<and> net w1 = net w"
  by (auto simp: batchInsertPrices_def split: if_splits prod.splits sum.splits
           dest: query_frame)

lemma store_collected_frame:
  "store_collected recs w = (r, w1) \<Longrightarrow>
   requests w1 = requests w \<and> clock w1 = clock w \<and> net w1 = net w"
  by (auto simp: store_collected_def split: if_splits prod.splits sum.splits
           dest: batchInsertPrices_frame)

lemma collect_outcome_paced:
  assumes "paced DELAY_BETWEEN_REQUESTS w"
    and "collect_outcome m ts oc (st, w) = Some (st', w')"
  shows "paced DELAY_BETWEEN_REQUESTS w'"
proof (cases "no_token (tokenID oc)")
  case True
  then have "w' = console_log (LogNoTokenId (title oc)) w"
    using assms(2) by (simp add: collect_outcome_def)
  then show ?thesis using assms(1) by (auto intro: paced_later)
next
  case False
  define w1 where "w1 = (if requestCount st > 0 \<and> requestCount st mod 10 = 0
                     then sleep DELAY_BETWEEN_REQUESTS (console_log (LogProgress (requestCount st)) w)
                     else w)"
  have p1: "paced DELAY_BETWEEN_REQUESTS w1"
    using assms(1) by (rule paced_later) (simp_all add: w1_def)
  have gap: "DELAY_BETWEEN_REQUESTS \<le> 30000"
    by (simp add: DELAY_BETWEEN_REQUESTS_value)
  from assms(2) False obtain res w2 where
    f: "fetchTokenPrice (the (tokenID oc)) w1 = Some (res, w2)"
    and w': "requests w' = requests w2" "clock w' = clock w2 + DELAY_BETWEEN_REQUESTS"
    by (auto simp: collect_outcome_def w1_def [symmetric] Let_def split: option.splits)
  show ?thesis
    by (rule fetchTokenPrice_paced [OF p1 gap f]) (simp_all add: w')
qed

lemma collect_outcomes_paced:
  "paced DELAY_BETWEEN_REQUESTS (snd sw) \<Longrightarrow> collect_outcomes m ts ocs sw = Some sw' \<Longrightarrow>
   paced DELAY_BETWEEN_REQUESTS (snd sw')"
proof (induction ocs arbitrary: sw)
  case Nil
  then show ?case by simp
next
  case (Cons oc ocs)
  from Cons.prems(2) obtain sw1 where
    one: "collect_outcome m ts oc sw = Some sw1" and rest: "collect_outcomes m ts ocs sw1 = Some sw'"
    by (auto split: option.splits)
  have "paced DELAY_BETWEEN_REQUESTS (snd sw1)"
    using Cons.prems(1) one collect_outcome_paced [of "snd sw" m ts oc "fst sw" "fst sw1" "snd sw1"]
    by simp
  then show ?case using rest by (rule Cons.IH)
qed

lemma collect_markets_paced:
  "paced DELAY_BETWEEN_REQUESTS (snd sw) \<Longrightarrow> collect_markets ts ms sw = Some sw' \<Longrightarrow>
   paced DELAY_BETWEEN_REQUESTS (snd sw')"
proof (induction ms arbitrary: sw)
  case Nil
  then show ?case by simp
next
  case (Cons m ms)
  show ?case
  proof (cases "no_outcomes (outcomes m)")
    case True
    let ?sw = "(fst sw, console_log (LogNoOutcomes (marketSlug m)) (snd sw))"
    have "paced DELAY_BETWEEN_REQUESTS (snd ?sw)"
      using Cons.prems(1) by (auto intro: paced_later)
    moreover have "collect_markets ts ms ?sw = Some sw'"
      using Cons.prems(2) True by simp
    ultimately show ?thesis by (rule Cons.IH)
  next
    case False
    with Cons.prems(2) obtain sw1 where
      one: "collect_outcomes m ts (the (outcomes m)) sw = Some sw1"
      and rest: "collect_markets ts ms sw1 = Some sw'"
      by (auto split: option.splits)
    have "paced DELAY_BETWEEN_REQUESTS (snd sw1)"
      using Cons.prems(1) one by (rule collect_outcomes_paced)
    then show ?thesis using rest by (rule Cons.IH)
  qed
qed

lemma collect_games_paced:
  "paced DELAY_BETWEEN_REQUESTS (snd sw) \<Longrightarrow> collect_games ts gs sw = Some sw' \<Longrightarrow>
   paced DELAY_BETWEEN_REQUESTS (snd sw')"
proof (induction gs arbitrary: sw)
  case Nil
  then show ?case by simp
next
  case (Cons g gs)
  let ?sw = "(fst sw, console_log (LogGame (game_title g) (id g)) (snd sw))"
  from Cons.prems(2) obtain sw1 where
    one: "collect_markets ts (markets g) ?sw = Some sw1"
    and rest: "collect_games ts gs sw1 = Some sw'"
    by (auto split: option.splits)
  have "paced DELAY_BETWEEN_REQUESTS (snd ?sw)"
    using Cons.prems(1) by (auto intro: paced_later)
  then have "paced DELAY_BETWEEN_REQUESTS (snd sw1)"
    using one by (rule collect_markets_paced)
  then show ?case using rest by (rule Cons.IH)
qed

lemma collectPrices_paced:
  assumes "paced DELAY_BETWEEN_REQUESTS w" and "collectPrices w = Some (r, w')"
  shows "paced DELAY_BETWEEN_REQUESTS w'"
proof -
  obtain e w1 where enum: "getActiveGames (console_log (LogStarting (clock w)) w) = (e, w1)"
    by (cases "getActiveGames (console_log (LogStarting (clock w)) w)")
  from getActiveGames_frame [OF enum]
  have w1: "requests w1 = requests w" "clock w1 = clock w"
    by simp_all
  have p1: "paced DELAY_BETWEEN_REQUESTS w1"
    using assms(1) by (rule paced_later) (simp_all add: w1)
  show ?thesis
  proof (cases e)
    case (Inl err)
    then have "w' = console_log LogCollectionFailed w1"
      using assms(2) enum by (simp add: collectPrices_def)
    then show ?thesis using p1 by (auto intro: paced_later)
  next
    case (Inr gs)
    show ?thesis
    proof (cases "length gs = 0")
      case True
      then have "w' = console_log LogNoActiveGames (console_log (LogFound (length gs)) w1)"
        using assms(2) enum Inr by (simp add: collectPrices_def)
      then show ?thesis using p1 by (auto intro: paced_later)
    next
      case False
      let ?w2 = "console_log (LogFound (length gs)) w1"
      let ?init = "\<lparr> priceRecords = [], requestCount = 0, successCount = 0, failureCount = 0 \<rparr>"
      from assms(2) enum Inr False obtain st w3 where
        cg: "collect_games (clock w1) gs (?init, ?w2) = Some (st, w3)"
        by (auto simp: collectPrices_def Let_def split: option.splits)
      have "paced DELAY_BETWEEN_REQUESTS (snd (?init, ?w2))"
        using p1 by (auto intro: paced_later)
      then have p3: "paced DELAY_BETWEEN_REQUESTS (snd (st, w3))"
        using cg by (rule collect_games_paced)
      obtain s w4 where store: "store_collected (priceRecords st) w3 = (s, w4)"
        by (cases "store_collected (priceRecords st) w3")
      from store_collected_frame [OF store]
      have w4: "requests w4 = requests w3" "clock w4 = clock w3"
        by simp_all
      have p4: "paced DELAY_BETWEEN_REQUESTS w4"
        using p3 by (auto intro: paced_later simp: w4)
      have "requests w' = requests w4 \<and> clock w' = clock w4"
        using assms(2) enum Inr False cg store
        by (auto simp: collectPrices_def Let_def split: sum.splits)
      then show ?thesis using p4 by (auto intro: paced_later)
    qed
  qed
qed

lemma filter_length_mono:
  "\<forall>x \<in> set xs. P x \<longrightarrow> Q x \<Longrightarrow> length (filter P xs) \<le> length (filter Q xs)"
  by (induction xs) auto

lemma spaced_window:
  "spaced gap ts \<Longrightarrow> length (filter (\<lambda>x. a \<le> x \<and> x < a + gap * n) ts) \<le> n"
proof (induction ts arbitrary: a n)
  case Nil
  then show ?case by simp
next
  case (Cons t ts)
  have tail: "spaced gap ts"
    using Cons.prems by (simp add: spaced_Cons)
  have later: "\<forall>u \<in> set ts. t + gap \<le> u"
    using Cons.prems by (auto dest: spaced_lower)
  show ?case
  proof (cases "a \<le> t \<and> t < a + gap * n")
    case False
    show ?thesis
    proof (cases "t < a")
      case True
      then show ?thesis using Cons.IH [OF tail, of a n] by simp
    next
      case False
      with \<open>\<not> (a \<le> t \<and> t < a + gap * n)\<close> have "a + gap * n \<le> t" by simp
      then have "filter (\<lambda>x. a \<le> x \<and> x < a + gap * n) ts = []"
        using later by (auto simp: filter_empty_conv)
      then show ?thesis using \<open>a + gap * n \<le> t\<close> by simp
    qed
  next
    case True
    then obtain k where n: "n = Suc k"
      by (cases n) auto
    have "length (filter (\<lambda>x. a \<le> x \<and> x < a + gap * n) ts) \<le>
          length (filter (\<lambda>x. t + gap \<le> x \<and> x < (t + gap) + gap * k) ts)"
    proof (rule filter_length_mono, intro ballI impI)
      fix x assume "x \<in> set ts" and w: "a \<le> x \<and> x < a + gap * n"
      then have "t + gap \<le> x" using later by blast
      moreover have "x < (t + gap) + gap * k"
        using w True by (simp add: n)
      ultimately show "t + gap \<le> x \<and> x < (t + gap) + gap * k" by simp
    qed
    also have "\<dots> \<le> k"
      by (rule Cons.IH [OF tail])
    finally show ?thesis using True by (simp add: n)
  qed
qed

text \<open>
  Claim C6. The delay is \<open>ceil(60000 / 90)\<close> = 667 ms. Let a run start with a paced
  request log (no request yet, or the last one at least 667 ms ago). When it returns,
  whatever the latencies of its requests were, any two consecutive requests are at least
  667 ms apart, the last request lies at least 667 ms back, and no window of one minute
  holds more than 90 requests.
\<close>

theorem collectPrices_request_rate:
  assumes "collectPrices w = Some (r, w')"
    and "paced DELAY_BETWEEN_REQUESTS w"
  shows "DELAY_BETWEEN_REQUESTS = nat \<lceil>(60000 :: rat) / 90\<rceil> \<and> DELAY_BETWEEN_REQUESTS = 667 \<and>
         spaced 667 (map fst (requests w')) \<and>
         (\<forall>x \<in> set (requests w'). fst x + 667 \<le> clock w') \<and>
         (\<forall>t. length (filter (\<lambda>x. t \<le> fst x \<and> fst x < t + 60000) (requests w')) \<le> 90)"
proof -
  have p: "paced 667 w'"
    using collectPrices_paced [OF assms(2,1)] by (simp add: DELAY_BETWEEN_REQUESTS_value)
  then have sp: "spaced 667 (map fst (requests w'))"
    and ago: "\<forall>x \<in> set (requests w'). fst x + 667 \<le> clock w'"
    by (simp_all add: paced_def)
  have win: "length (filter (\<lambda>x. t \<le> fst x \<and> fst x < t + 60000) (requests w')) \<le> 90" for t
  proof -
    have "length (filter (\<lambda>x. t \<le> fst x \<and> fst x < t + 60000) (requests w')) =
          length (filter (\<lambda>x. t \<le> x \<and> x < t + 60000) (map fst (requests w')))"
      by (simp add: filter_map comp_def)
    also have "\<dots> \<le> length (filter (\<lambda>x. t \<le> x \<and> x < t + 667 * 90) (map fst (requests w')))"
      by (rule filter_length_mono) auto
    also have "\<dots> \<le> 90"
      using sp by (rule spaced_window)
    finally show ?thesis .
  qed
  have d: "DELAY_BETWEEN_REQUESTS = nat \<lceil>(60000 :: rat) / 90\<rceil>"
    by (simp add: DELAY_BETWEEN_REQUESTS_def RATE_LIMIT_PER_MINUTE_def)
  show ?thesis
    using d DELAY_BETWEEN_REQUESTS_value sp ago win by blast
qed

theorem collectPrices_request_rate_witness:
  "paced DELAY_BETWEEN_REQUESTS run_world \<and>
   (\<exists>r w'. collectPrices run_world = Some (r, w') \<and>
      requests w' = [(1000000000, ''111''), (1000000817, ''222'')] \<and>
      spaced 667 (map fst (requests w')) \<and>
      (\<forall>x \<in> set (requests w'). fst x + 667 \<le> clock w') \<and>
      (\<forall>t. length (filter (\<lambda>x. t \<le> fst x \<and> fst x < t + 60000) (requests w')) \<le> 90))"
proof -
  have p: "paced DELAY_BETWEEN_REQUESTS run_world"
    by (simp add: paced_def run_world_def catalog_world_def)
  have "\<exists>w'. collectPrices run_world = Some (Inr (), w') \<and>
          requests w' = [(1000000000, ''111''), (1000000817, ''222'')]"
    by (simp add: collectPrices_def getActiveGames_def query_def select_active_games_def
          is_active_game_def game_of_row_def run_world_def catalog_world_def ended_game_def
          live_game_def game_in_40h_def game_in_72h_def closed_game_def lakers_market_def
          hours_48_def collect_outcome_def fetchTokenPrice.simps fetch_def ok_def
          store_collected_def batchInsertPrices_def DELAY_BETWEEN_REQUESTS_value)
  then obtain w' where run: "collectPrices run_world = Some (Inr (), w')"
    and reqs: "requests w' = [(1000000000, ''111''), (1000000817, ''222'')]"
    by blast
  from collectPrices_request_rate [OF run p] show ?thesis
    using p run reqs by blast
qed

section \<open>A run without trackable games\<close>





end
